theory Spec2Isabelle
  imports Main
begin

section \<open>JavaScript values and HTTP responses\<close>

text \<open>
  The values that travel through \<^verbatim>\<open>server.js\<close> are JSON documents: the request bodies
  parsed by \<^verbatim>\<open>express.json()\<close>, the contents of the data files and the bodies passed to
  \<^verbatim>\<open>res.json\<close>.  An object is its list of own properties in insertion order.  Numbers are
  restricted to integers (the identifiers, counters and years the handlers compute).
\<close>

datatype json =
    JNull
  | JBool bool
  | JNum int
  | JStr string
  | JArr "json list"
  | JObj "(string \<times> json) list"

text \<open>What \<^verbatim>\<open>res.status(s).json(b)\<close> sends; \<^verbatim>\<open>res.json(b)\<close> alone sends status 200.\<close>

datatype response = Response (status: nat) (body: json)

text \<open>
  The exceptions that the handlers catch: failures of the file system, of \<^verbatim>\<open>JSON.parse\<close>,
  of the engine (a method or property of a value that has none, a name that is not in
  scope), of a library, and
  \<^verbatim>\<open>new Error(message)\<close> thrown by a handler itself.
\<close>

datatype js_error =
  ENOENT | EIO | SyntaxError | TypeError | ReferenceError | LibraryError | Error string

definition error_body :: "string \<Rightarrow> json" where
  "error_body m = JObj [(''error'', JStr m)]"

definition message_body :: "string \<Rightarrow> json" where
  "message_body m = JObj [(''message'', JStr m)]"


text \<open>\<^verbatim>\<open>x || d\<close> for a request field that is a string or is missing.\<close>

fun or_default :: "string option \<Rightarrow> string \<Rightarrow> string" where
  "or_default None d = d"
| "or_default (Some s) d = (if s = [] then d else s)"

section \<open>The JSON text of a value\<close>

text \<open>
  \<^verbatim>\<open>JSON.stringify(data, null, 2)\<close>, which \<^verbatim>\<open>saveData\<close> writes: literals, integers in
  decimal (as the engine prints them below \<open>10\<^sup>2\<^sup>1\<close>), quoted strings with the
  escapes of the standard (a string is its UTF-8 bytes, so only the quote, the backslash
  and the control characters are escaped), and arrays and objects with one element per
  line, indented by two spaces per level.
\<close>

definition digit_char :: "nat \<Rightarrow> char" where
  "digit_char d = ''0123456789abcdef'' ! (d mod 16)"

fun show_nat :: "nat \<Rightarrow> string" where
  "show_nat n = (if n < 10 then [digit_char n] else show_nat (n div 10) @ [digit_char (n mod 10)])"

declare show_nat.simps [simp del]

definition show_int :: "int \<Rightarrow> string" where
  "show_int i = (if i < 0 then CHR ''-'' # show_nat (nat (- i)) else show_nat (nat i))"

definition escape_char :: "char \<Rightarrow> string" where
  "escape_char c =
    (if c = CHR 0x22 then [CHR 0x5C, CHR 0x22]
     else if c = CHR 0x5C then [CHR 0x5C, CHR 0x5C]
     else if c = CHR 0x08 then [CHR 0x5C, CHR ''b'']
     else if c = CHR 0x09 then [CHR 0x5C, CHR ''t'']
     else if c = CHR 0x0A then [CHR 0x5C, CHR ''n'']
     else if c = CHR 0x0C then [CHR 0x5C, CHR ''f'']
     else if c = CHR 0x0D then [CHR 0x5C, CHR ''r'']
     else if (of_char c :: nat) < 32
       then [CHR 0x5C, CHR ''u'', CHR ''0'', CHR ''0'',
             digit_char (of_char c div 16), digit_char (of_char c mod 16)]
     else [c])"

definition quote :: "string \<Rightarrow> string" where
  "quote s = CHR 0x22 # concat (map escape_char s) @ [CHR 0x22]"

fun join :: "string \<Rightarrow> string list \<Rightarrow> string" where
  "join sep [] = []"
| "join sep [x] = x"
| "join sep (x # y # ys) = x @ sep @ join sep (y # ys)"

definition newline :: "nat \<Rightarrow> string" where
  "newline ind = CHR 0x0A # replicate ind (CHR '' '')"

fun stringify :: "nat \<Rightarrow> json \<Rightarrow> string" where
  "stringify ind JNull = ''null''"
| "stringify ind (JBool b) = (if b then ''true'' else ''false'')"
| "stringify ind (JNum i) = show_int i"
| "stringify ind (JStr s) = quote s"
| "stringify ind (JArr vs) =
    (if vs = [] then ''[]''
     else ''['' @ newline (ind + 2)
          @ join ('','' @ newline (ind + 2)) (map (stringify (ind + 2)) vs)
          @ newline ind @ '']'')"
| "stringify ind (JObj kvs) =
    (if kvs = [] then ''{}''
     else ''{'' @ newline (ind + 2)
          @ join ('','' @ newline (ind + 2))
              (map (\<lambda>(k, v). quote k @ '': '' @ stringify (ind + 2) v) kvs)
          @ newline ind @ ''}'')"

definition JSON_stringify :: "json \<Rightarrow> string" where
  "JSON_stringify v = stringify 0 v"

section \<open>The value of a JSON text\<close>

text \<open>
  \<^verbatim>\<open>JSON.parse(data)\<close>, which \<^verbatim>\<open>loadData\<close> applies to the bytes of a file: \<open>None\<close> is the
  \<^verbatim>\<open>SyntaxError\<close>.  The parser is a recursive descent over the characters; its first
  argument bounds the number of nested calls, and \<open>JSON_parse\<close> supplies twice the length
  of the text, beyond which a larger bound gives the same result (\<open>JSON_parse_fuel\<close>
  below).  A property that occurs twice keeps its first
  place and its last value.  Texts with a fraction, an exponent or a \<^verbatim>\<open>\u\<close> escape above
  \<^verbatim>\<open>\u007f\<close> denote values outside the type \<open>json\<close> and are rejected like malformed ones.
\<close>

definition is_ws :: "char \<Rightarrow> bool" where
  "is_ws c = (c = CHR '' '' \<or> c = CHR 0x09 \<or> c = CHR 0x0A \<or> c = CHR 0x0D)"

fun skip_ws :: "string \<Rightarrow> string" where
  "skip_ws [] = []"
| "skip_ws (c # cs) = (if is_ws c then skip_ws cs else c # cs)"

definition is_digit :: "char \<Rightarrow> bool" where
  "is_digit c = (let n = of_char c :: nat in 48 \<le> n \<and> n \<le> 57)"

definition hex_val :: "char \<Rightarrow> nat option" where
  "hex_val c =
    (let n = of_char c :: nat in
     if 48 \<le> n \<and> n \<le> 57 then Some (n - 48)
     else if 97 \<le> n \<and> n \<le> 102 then Some (n - 87)
     else if 65 \<le> n \<and> n \<le> 70 then Some (n - 55)
     else None)"

definition unescape :: "char \<Rightarrow> char option" where
  "unescape c =
    (if c = CHR 0x22 \<or> c = CHR 0x5C \<or> c = CHR ''/'' then Some c
     else if c = CHR ''b'' then Some (CHR 0x08)
     else if c = CHR ''f'' then Some (CHR 0x0C)
     else if c = CHR ''n'' then Some (CHR 0x0A)
     else if c = CHR ''r'' then Some (CHR 0x0D)
     else if c = CHR ''t'' then Some (CHR 0x09)
     else None)"

definition cons_char :: "char \<Rightarrow> (string \<times> string) option \<Rightarrow> (string \<times> string) option" where
  "cons_char c r = (case r of None \<Rightarrow> None | Some (s, rest) \<Rightarrow> Some (c # s, rest))"

fun parse_string :: "string \<Rightarrow> (string \<times> string) option" where
  "parse_string [] = None"
| "parse_string (c # r) =
    (if c = CHR 0x22 then Some ([], r)
     else if c = CHR 0x5C then
       (case r of
          [] \<Rightarrow> None
        | e # r' \<Rightarrow>
            if e = CHR ''u'' then
              (case r' of
                 a # b # c' # d # r'' \<Rightarrow>
                   (case (hex_val a, hex_val b, hex_val c', hex_val d) of
                      (Some x3, Some x2, Some x1, Some x0) \<Rightarrow>
                        (let n = ((x3 * 16 + x2) * 16 + x1) * 16 + x0 in
                         if n < 128 then cons_char (char_of n) (parse_string r'') else None)
                    | _ \<Rightarrow> None)
               | _ \<Rightarrow> None)
            else (case unescape e of
                    None \<Rightarrow> None
                  | Some x \<Rightarrow> cons_char x (parse_string r')))
     else if (of_char c :: nat) < 32 then None
     else cons_char c (parse_string r))"

fun parse_digits :: "nat \<Rightarrow> string \<Rightarrow> nat \<times> string" where
  "parse_digits acc [] = (acc, [])"
| "parse_digits acc (c # r) =
    (if is_digit c then parse_digits (10 * acc + (of_char c - 48)) r else (acc, c # r))"

definition parse_nat :: "string \<Rightarrow> (nat \<times> string) option" where
  "parse_nat s =
    (case s of
       [] \<Rightarrow> None
     | c # r \<Rightarrow>
         if \<not> is_digit c then None
         else if c = CHR ''0'' \<and> (case r of [] \<Rightarrow> False | d # _ \<Rightarrow> is_digit d) then None
         else (case parse_digits 0 s of
                 (n, rest) \<Rightarrow>
                   if (case rest of [] \<Rightarrow> False | d # _ \<Rightarrow> d \<in> set ''.eE'') then None
                   else Some (n, rest)))"

definition parse_number :: "string \<Rightarrow> (json \<times> string) option" where
  "parse_number s =
    (case s of
       [] \<Rightarrow> None
     | c # r \<Rightarrow>
         if c = CHR ''-''
         then (case parse_nat r of None \<Rightarrow> None | Some (n, rest) \<Rightarrow> Some (JNum (- int n), rest))
         else (case parse_nat s of None \<Rightarrow> None | Some (n, rest) \<Rightarrow> Some (JNum (int n), rest)))"

fun strip_prefix :: "string \<Rightarrow> string \<Rightarrow> string option" where
  "strip_prefix [] s = Some s"
| "strip_prefix (p # ps) [] = None"
| "strip_prefix (p # ps) (c # cs) = (if p = c then strip_prefix ps cs else None)"

definition parse_atom :: "string \<Rightarrow> (json \<times> string) option" where
  "parse_atom s =
    (case strip_prefix ''null'' s of Some r \<Rightarrow> Some (JNull, r) | None \<Rightarrow>
     (case strip_prefix ''true'' s of Some r \<Rightarrow> Some (JBool True, r) | None \<Rightarrow>
      (case strip_prefix ''false'' s of Some r \<Rightarrow> Some (JBool False, r) | None \<Rightarrow>
         parse_number s)))"

text \<open>An assignment to a property: a present key keeps its place.\<close>

fun obj_put :: "(string \<times> json) list \<Rightarrow> string \<Rightarrow> json \<Rightarrow> (string \<times> json) list" where
  "obj_put [] k v = [(k, v)]"
| "obj_put ((k', v') # kvs) k v = (if k' = k then (k, v) # kvs else (k', v') # obj_put kvs k v)"

definition obj_of_members :: "(string \<times> json) list \<Rightarrow> (string \<times> json) list" where
  "obj_of_members ms = foldl (\<lambda>acc (k, v). obj_put acc k v) [] ms"

fun parse_value :: "nat \<Rightarrow> string \<Rightarrow> (json \<times> string) option"
and parse_elements :: "nat \<Rightarrow> string \<Rightarrow> (json list \<times> string) option"
and parse_members :: "nat \<Rightarrow> string \<Rightarrow> ((string \<times> json) list \<times> string) option"
where
  "parse_value 0 s = None"
| "parse_value (Suc n) s =
    (case skip_ws s of
       [] \<Rightarrow> None
     | c # r \<Rightarrow>
         if c = CHR ''['' then
           (case skip_ws r of
              [] \<Rightarrow> None
            | c' # r' \<Rightarrow>
                if c' = CHR '']'' then Some (JArr [], r')
                else (case parse_elements n (c' # r') of
                        None \<Rightarrow> None
                      | Some (vs, rest) \<Rightarrow> Some (JArr vs, rest)))
         else if c = CHR ''{'' then
           (case skip_ws r of
              [] \<Rightarrow> None
            | c' # r' \<Rightarrow>
                if c' = CHR ''}'' then Some (JObj [], r')
                else (case parse_members n (c' # r') of
                        None \<Rightarrow> None
                      | Some (ms, rest) \<Rightarrow> Some (JObj (obj_of_members ms), rest)))
         else if c = CHR 0x22 then
           (case parse_string r of
              None \<Rightarrow> None
            | Some (str, rest) \<Rightarrow> Some (JStr str, rest))
         else parse_atom (c # r))"
| "parse_elements 0 s = None"
| "parse_elements (Suc n) s =
    (case parse_value n s of
       None \<Rightarrow> None
     | Some (v, r) \<Rightarrow>
         (case skip_ws r of
            [] \<Rightarrow> None
          | c # r' \<Rightarrow>
              if c = CHR '','' then
                (case parse_elements n r' of
                   None \<Rightarrow> None
                 | Some (vs, rest) \<Rightarrow> Some (v # vs, rest))
              else if c = CHR '']'' then Some ([v], r')
              else None))"
| "parse_members 0 s = None"
| "parse_members (Suc n) s =
    (case skip_ws s of
       [] \<Rightarrow> None
     | q # r0 \<Rightarrow>
         if q \<noteq> CHR 0x22 then None
         else
          (case parse_string r0 of
             None \<Rightarrow> None
           | Some (k, r1) \<Rightarrow>
               (case skip_ws r1 of
                  [] \<Rightarrow> None
                | colon # r2 \<Rightarrow>
                    if colon \<noteq> CHR '':'' then None
                    else
                     (case parse_value n r2 of
                        None \<Rightarrow> None
                      | Some (v, r3) \<Rightarrow>
                          (case skip_ws r3 of
                             [] \<Rightarrow> None
                           | c # r4 \<Rightarrow>
                               if c = CHR '','' then
                                 (case parse_members n r4 of
                                    None \<Rightarrow> None
                                  | Some (ms, rest) \<Rightarrow> Some ((k, v) # ms, rest))
                               else if c = CHR ''}'' then Some ([(k, v)], r4)
                               else None)))))"

definition JSON_parse :: "string \<Rightarrow> json option" where
  "JSON_parse s =
    (case parse_value (2 * length s + 2) s of
       None \<Rightarrow> None
     | Some (v, rest) \<Rightarrow> if skip_ws rest = [] then Some v else None)"

section \<open>The generic record store\<close>

text \<open>
  The data directory, as the two primitives of \<^verbatim>\<open>fs.promises\<close> see it: for each file name
  what \<^verbatim>\<open>readFile\<close> does (it throws, or it returns the bytes), and whether \<^verbatim>\<open>writeFile\<close>
  (with the \<^verbatim>\<open>mkdir\<close> that precedes it in \<^verbatim>\<open>archiveMessages.js\<close>) throws.  A write that
  throws leaves the file as it was.
\<close>

record disk =
  files :: "string \<Rightarrow> js_error + string"
  write_error :: "string \<Rightarrow> js_error option"

definition readFile :: "disk \<Rightarrow> string \<Rightarrow> js_error + string" where
  "readFile d filename = files d filename"

definition writeFile :: "disk \<Rightarrow> string \<Rightarrow> string \<Rightarrow> js_error + disk" where
  "writeFile d filename content =
    (case write_error d filename of
       Some error \<Rightarrow> Inl error
     | None \<Rightarrow> Inr (d\<lparr>files := (files d)(filename := Inr content)\<rparr>))"

text \<open>The \<^verbatim>\<open>try\<close> block of \<^verbatim>\<open>loadData\<close>, and \<^verbatim>\<open>loadData\<close> of \<^verbatim>\<open>server.js\<close> (lines 254-262).\<close>

definition loadData_try :: "disk \<Rightarrow> string \<Rightarrow> js_error + json" where
  "loadData_try d filename =
    (case readFile d filename of
       Inl error \<Rightarrow> Inl error
     | Inr data \<Rightarrow> (case JSON_parse data of None \<Rightarrow> Inl SyntaxError | Some v \<Rightarrow> Inr v))"

definition loadData :: "disk \<Rightarrow> string \<Rightarrow> json" where
  "loadData d filename =
    (case loadData_try d filename of Inl error \<Rightarrow> JNull | Inr v \<Rightarrow> v)"

text \<open>\<^verbatim>\<open>saveData\<close> of \<^verbatim>\<open>server.js\<close> (lines 265-276): the flag it returns and the directory.\<close>

definition saveData :: "disk \<Rightarrow> string \<Rightarrow> json \<Rightarrow> bool \<times> disk" where
  "saveData d filename data =
    (case writeFile d filename (JSON_stringify data) of
       Inl error \<Rightarrow> (False, d)
     | Inr d' \<Rightarrow> (True, d'))"



section \<open>JavaScript operations on values\<close>

text \<open>Truthiness, \<^verbatim>\<open>x || d\<close> and \<^verbatim>\<open>Array.isArray\<close>.\<close>

fun truthy :: "json \<Rightarrow> bool" where
  "truthy JNull = False"
| "truthy (JBool b) = b"
| "truthy (JNum i) = (i \<noteq> 0)"
| "truthy (JStr s) = (s \<noteq> [])"
| "truthy (JArr vs) = True"
| "truthy (JObj kvs) = True"

definition or_else :: "json \<Rightarrow> json \<Rightarrow> json" where
  "or_else x d = (if truthy x then x else d)"

fun isArray :: "json \<Rightarrow> bool" where
  "isArray (JArr vs) = True"
| "isArray _ = False"

text \<open>
  Reading a property \<open>x.k\<close> for the names the handlers use (\<^verbatim>\<open>id\<close>, \<^verbatim>\<open>read\<close>,
  \<^verbatim>\<open>createdAt\<close>, \<^verbatim>\<open>skills\<close>, \<^verbatim>\<open>certificate\<close>, \<^verbatim>\<open>image\<close>), none of which a string, a
  number, a boolean or an array inherits: \<^verbatim>\<open>null\<close> throws, \<open>None\<close> is \<^verbatim>\<open>undefined\<close>.
\<close>

fun get_prop :: "json \<Rightarrow> string \<Rightarrow> js_error + json option" where
  "get_prop JNull k = Inl TypeError"
| "get_prop (JObj kvs) k = Inr (map_of kvs k)"
| "get_prop _ k = Inr None"

text \<open>\<open>p.id === id\<close> for the string \<open>id\<close> of the route.\<close>

definition id_is :: "string \<Rightarrow> json \<Rightarrow> js_error + bool" where
  "id_is ident p =
    (case get_prop p ''id'' of Inl error \<Rightarrow> Inl error | Inr x \<Rightarrow> Inr (x = Some (JStr ident)))"

definition id_is_not :: "string \<Rightarrow> json \<Rightarrow> js_error + bool" where
  "id_is_not ident p =
    (case id_is ident p of Inl error \<Rightarrow> Inl error | Inr b \<Rightarrow> Inr (\<not> b))"

text \<open>
  The receiver of an array method (\<^verbatim>\<open>filter\<close>, \<^verbatim>\<open>find\<close>, \<^verbatim>\<open>findIndex\<close>, \<^verbatim>\<open>push\<close>,
  \<^verbatim>\<open>unshift\<close>): on anything but an array the method is \<^verbatim>\<open>undefined\<close> and the call throws.
\<close>

fun as_array :: "json \<Rightarrow> js_error + json list" where
  "as_array (JArr vs) = Inr vs"
| "as_array _ = Inl TypeError"

text \<open>\<^verbatim>\<open>filter\<close> calls the predicate on every element, \<^verbatim>\<open>findIndex\<close> up to the first hit.\<close>

fun filter_js :: "(json \<Rightarrow> js_error + bool) \<Rightarrow> json list \<Rightarrow> js_error + json list" where
  "filter_js p [] = Inr []"
| "filter_js p (x # xs) =
    (case p x of
       Inl error \<Rightarrow> Inl error
     | Inr keep \<Rightarrow>
         (case filter_js p xs of
            Inl error \<Rightarrow> Inl error
          | Inr ys \<Rightarrow> Inr (if keep then x # ys else ys)))"


text \<open>
  An object literal with a spread, \<^verbatim>\<open>{...a, k: v}\<close>: the properties are assigned from left
  to right with \<open>obj_put\<close>.
\<close>

definition obj_assign :: "(string \<times> json) list \<Rightarrow> (string \<times> json) list \<Rightarrow> (string \<times> json) list" where
  "obj_assign acc kvs = foldl (\<lambda>acc (k, v). obj_put acc k v) acc kvs"

section \<open>GET /api/projects\<close>

text \<open>The \<^verbatim>\<open>try\<close> block of lines 281-284 and the handler with its \<^verbatim>\<open>catch\<close>.\<close>

definition get_projects_try :: "disk \<Rightarrow> js_error + response" where
  "get_projects_try d =
    (let projects = loadData d ''projects.json''
     in Inr (Response 200 (if isArray projects then projects else JArr [])))"

definition get_projects :: "disk \<Rightarrow> response" where
  "get_projects d =
    (case get_projects_try d of
       Inl error \<Rightarrow> Response 500 (error_body ''Failed to load projects'')
     | Inr r \<Rightarrow> r)"

section \<open>What a handler takes from the runtime\<close>

text \<open>
  The readings and library answers a handler of a file-backed resource consumes while it
  serves one request: \<^verbatim>\<open>Date.now()\<close>, \<^verbatim>\<open>new Date().toISOString()\<close>, the text of
  \<^verbatim>\<open>error.message\<close> for an exception of the engine, whether the notification mail of
  \<^verbatim>\<open>POST /api/messages\<close> is delivered, \<^verbatim>\<open>Array.prototype.sort\<close> with the comparator of
  line 1283, and whether \<^verbatim>\<open>fs.access\<close> and \<^verbatim>\<open>fs.unlink\<close> both succeed on an uploaded file
  under \<^verbatim>\<open>public/\<close> (these files are outside the data directory).  The handlers are
  modelled behind \<^verbatim>\<open>authenticateToken\<close> and the upload middleware.
\<close>

record runtime =
  now_ms :: int
  now_iso :: string
  engine_message :: "js_error \<Rightarrow> string"
  notify_ok :: bool
  sort_by_date :: "json list \<Rightarrow> js_error + json list"
  unlink_ok :: "string \<Rightarrow> bool"

text \<open>Ending a handler: the answer of the \<^verbatim>\<open>try\<close> block, or the 500 of its \<^verbatim>\<open>catch\<close>.\<close>

definition catch_500 :: "string \<Rightarrow> (js_error + response) \<times> disk \<Rightarrow> response \<times> disk" where
  "catch_500 m r =
    (case fst r of
       Inl error \<Rightarrow> (Response 500 (error_body m), snd r)
     | Inr answer \<Rightarrow> (answer, snd r))"

text \<open>\<^verbatim>\<open>Date.now().toString()\<close>.\<close>

definition new_id :: "runtime \<Rightarrow> json" where
  "new_id rt = JStr (show_int (now_ms rt))"

text \<open>
  The own properties that a spread \<^verbatim>\<open>...x\<close> copies: those of an object, the indexed
  elements of an array, nothing for the other values a request body can be.
\<close>

fun spread :: "json \<Rightarrow> (string \<times> json) list" where
  "spread (JObj kvs) = kvs"
| "spread (JArr vs) = zip (map show_nat [0..<length vs]) vs"
| "spread _ = []"


text \<open>An optional text field of a form: \<^verbatim>\<open>undefined\<close> leaves no property in the JSON text.\<close>

fun opt_prop :: "string \<Rightarrow> string option \<Rightarrow> (string \<times> json) list" where
  "opt_prop k None = []"
| "opt_prop k (Some s) = [(k, JStr s)]"

text \<open>\<^verbatim>\<open>trim\<close>, \<^verbatim>\<open>split(',')\<close> and \<^verbatim>\<open>parseInt\<close> on ASCII text.\<close>

definition is_space :: "char \<Rightarrow> bool" where
  "is_space c = (c \<in> set [CHR 0x09, CHR 0x0A, CHR 0x0B, CHR 0x0C, CHR 0x0D, CHR '' ''])"

definition trim :: "string \<Rightarrow> string" where
  "trim s = rev (dropWhile is_space (rev (dropWhile is_space s)))"

fun split_on :: "char \<Rightarrow> string \<Rightarrow> string list" where
  "split_on sep [] = [[]]"
| "split_on sep (c # cs) =
    (if c = sep then [] # split_on sep cs
     else (case split_on sep cs of [] \<Rightarrow> [[c]] | w # ws \<Rightarrow> (c # w) # ws))"

definition digits_value :: "nat \<Rightarrow> nat list \<Rightarrow> int" where
  "digits_value radix ds = int (foldl (\<lambda>acc d. radix * acc + d) 0 ds)"

definition parse_radix :: "nat \<Rightarrow> string \<Rightarrow> int option" where
  "parse_radix radix s =
    (let ds = takeWhile (\<lambda>c. case hex_val c of None \<Rightarrow> False | Some d \<Rightarrow> d < radix) s
     in if ds = [] then None
        else Some (digits_value radix (map (\<lambda>c. case hex_val c of None \<Rightarrow> 0 | Some d \<Rightarrow> d) ds)))"

definition parseInt :: "string \<Rightarrow> int option" where
  "parseInt s =
    (let t = dropWhile is_space s;
         negative = (case t of [] \<Rightarrow> False | c # _ \<Rightarrow> c = CHR ''-'');
         u = (case t of [] \<Rightarrow> [] | c # r \<Rightarrow> if c = CHR ''-'' \<or> c = CHR ''+'' then r else t);
         magnitude =
           (case u of
              z # x # r \<Rightarrow>
                if z = CHR ''0'' \<and> (x = CHR ''x'' \<or> x = CHR ''X'') then parse_radix 16 r
                else parse_radix 10 u
            | _ \<Rightarrow> parse_radix 10 u)
     in case magnitude of None \<Rightarrow> None | Some n \<Rightarrow> Some (if negative then - n else n))"

text \<open>\<^verbatim>\<open>x.split(',').map(t => t.trim()).filter(Boolean)\<close> and the variant without the filter.\<close>

definition comma_list :: "string \<Rightarrow> json" where
  "comma_list s = JArr (map JStr (filter (\<lambda>t. t \<noteq> []) (map trim (split_on (CHR '','') s))))"

definition comma_list_all :: "string \<Rightarrow> json" where
  "comma_list_all s = JArr (map JStr (map trim (split_on (CHR '','') s)))"

section \<open>Projects\<close>

text \<open>The text fields of the multipart form and the stored name of the uploaded file.\<close>

record project_form =
  project_title :: "string option"
  project_description :: "string option"
  project_technologies :: "string option"
  project_githubLink :: "string option"
  project_liveLink :: "string option"
  project_existingImage :: "string option"
  project_file :: "string option"



text \<open>\<^verbatim>\<open>POST /api/projects\<close> (lines 311-345): the record of lines 317-328 and the handler.\<close>

definition newProject :: "runtime \<Rightarrow> project_form \<Rightarrow> json" where
  "newProject rt f =
    JObj ([(''id'', new_id rt)]
          @ opt_prop ''title'' (project_title f)
          @ opt_prop ''description'' (project_description f)
          @ [(''technologies'',
               (case project_technologies f of
                  None \<Rightarrow> JArr []
                | Some t \<Rightarrow> if t = [] then JArr [] else comma_list t)),
             (''image'',
               (case project_file f of
                  Some filename \<Rightarrow> JStr (''/assets/images/'' @ filename)
                | None \<Rightarrow>
                    (case project_existingImage f of
                       None \<Rightarrow> JNull
                     | Some s \<Rightarrow> if s = [] then JNull else JStr s))),
             (''githubLink'', JStr (or_default (project_githubLink f) [])),
             (''liveLink'', JStr (or_default (project_liveLink f) [])),
             (''createdAt'', JStr (now_iso rt))])"











section \<open>Education\<close>

record education_form =
  education_year :: "string option"
  education_title :: "string option"
  education_institution :: "string option"
  education_description :: "string option"
  education_highlights :: "string option"
  education_skills :: "string option"
  education_isCurrent :: "string option"
  education_certificate :: "string option"
  education_file :: "string option"

text \<open>
  The parsing of \<^verbatim>\<open>highlights\<close> and \<^verbatim>\<open>skills\<close> (lines 724-734): the JSON value of the
  field, or its comma-separated pieces when it is not JSON.  \<^verbatim>\<open>parseInt\<close> of a missing
  or non-numeric year is \<^verbatim>\<open>NaN\<close>, which JSON writes as \<^verbatim>\<open>null\<close>.
\<close>

definition list_field :: "string option \<Rightarrow> json" where
  "list_field x =
    (case x of
       None \<Rightarrow> JArr []
     | Some s \<Rightarrow>
         if s = [] then JArr []
         else (case JSON_parse s of Some v \<Rightarrow> v | None \<Rightarrow> comma_list_all s))"

definition year_field :: "string option \<Rightarrow> json" where
  "year_field x =
    (case x of
       None \<Rightarrow> JNull
     | Some s \<Rightarrow> (case parseInt s of None \<Rightarrow> JNull | Some n \<Rightarrow> JNum n))"

text \<open>A property assigned \<^verbatim>\<open>undefined\<close> is left out of the JSON text.\<close>

fun obj_put_opt :: "(string \<times> json) list \<Rightarrow> string \<Rightarrow> string option \<Rightarrow> (string \<times> json) list" where
  "obj_put_opt kvs k None = filter (\<lambda>(k', v). k' \<noteq> k) kvs"
| "obj_put_opt kvs k (Some s) = obj_put kvs k (JStr s)"

text \<open>The fields both handlers assign, in the order of lines 738-745 and 793-800.\<close>

definition education_fields ::
  "education_form \<Rightarrow> (string \<times> json) list \<Rightarrow> (string \<times> json) list"
where
  "education_fields f kvs =
    obj_assign
      (obj_put_opt
         (obj_put_opt (obj_put kvs ''year'' (year_field (education_year f)))
            ''title'' (education_title f))
         ''institution'' (education_institution f))
      [(''description'', JStr (or_default (education_description f) [])),
       (''highlights'', list_field (education_highlights f)),
       (''skills'', list_field (education_skills f)),
       (''isCurrent'', JBool (education_isCurrent f = Some ''true''))]"



text \<open>\<^verbatim>\<open>POST /api/education\<close> (lines 716-764).\<close>

definition newEntry :: "runtime \<Rightarrow> education_form \<Rightarrow> json" where
  "newEntry rt f =
    JObj (obj_assign (education_fields f [(''id'', new_id rt)])
           ([(''createdAt'', JStr (now_iso rt))]
            @ (case education_file f of
                 None \<Rightarrow> []
               | Some filename \<Rightarrow> [(''certificate'', JStr (''/assets/certificates/'' @ filename))])))"






section \<open>Technologies\<close>






definition delete_technology :: "string \<Rightarrow> disk \<Rightarrow> response \<times> disk" where
  "delete_technology ident d =
    catch_500 ''Failed to delete technology''
      (let skills = or_else (loadData d ''skills.json'') (JArr []) in
       case as_array skills of
         Inl error \<Rightarrow> (Inl error, d)
       | Inr ss \<Rightarrow>
           (case filter_js (id_is_not ident) ss of
              Inl error \<Rightarrow> (Inl error, d)
            | Inr filteredSkills \<Rightarrow>
                if length ss = length filteredSkills
                then (Inr (Response 404 (error_body ''Technology not found'')), d)
                else (Inr (Response 200 (message_body ''Technology deleted successfully'')),
                      snd (saveData d ''skills.json''
                             (JObj [(''skills'', JArr filteredSkills)])))))"

section \<open>Skills\<close>







section \<open>Messages\<close>










section \<open>The endpoints of the file-backed resources\<close>

datatype request =
    GetProjects
  | GetProject string
  | PostProject project_form
  | PutProject string project_form
  | DeleteProject string
  | GetEducation
  | GetEducationEntry string
  | PostEducation education_form
  | PutEducation string education_form
  | DeleteEducation string
  | GetTechnologies
  | PostTechnology json
  | PutTechnology string json
  | DeleteTechnology string
  | GetSkills
  | GetSkill string
  | PostSkill json
  | PutSkill string json
  | DeleteSkill string
  | PostMessage json
  | GetMessages
  | GetUnreadCount
  | GetMessage string
  | PutMessageRead string
  | DeleteMessage string


section \<open>The archival job\<close>







section \<open>The resources and their files\<close>

text \<open>
  The four file-backed resources of the data model, the file of each, its delete
  endpoint, and the records a loaded value stands for: the elements of the bare array
  (of the array under \<^verbatim>\<open>skills\<close> for the skills file), none when the file is missing or
  unreadable.
\<close>

datatype resource = Projects | Education | Skills | Messages

fun resource_file :: "resource \<Rightarrow> string" where
  "resource_file Projects = ''projects.json''"
| "resource_file Education = ''education.json''"
| "resource_file Skills = ''skills.json''"
| "resource_file Messages = ''messages.json''"



section \<open>The document store of accounts\<close>

text \<open>
  \<^verbatim>\<open>UserSchema\<close> of \<^verbatim>\<open>server.js\<close>.  Dates are milliseconds since the epoch; a field that
  the schema does not require is optional.
\<close>

record template =
  subject :: "string option"
  headerColor :: "string option"
  buttonColor :: "string option"
  logoUrl :: "string option"
  customMessage :: "string option"

record user =
  user_id :: string
  username :: string
  password :: string
  email :: string
  passwordReset :: "template option"
  resetToken :: "string option"
  resetTokenExpires :: "int option"

text \<open>
  The collection is the list of its documents in natural order.
  \<^verbatim>\<open>User.findOne(q)\<close> is the first document satisfying \<open>q\<close>, \<^verbatim>\<open>User.find(q)\<close> all of them,
  and \<^verbatim>\<open>user.save()\<close> replaces the stored document carrying the same \<^verbatim>\<open>_id\<close>.
\<close>

definition User_findOne :: "(user \<Rightarrow> bool) \<Rightarrow> user list \<Rightarrow> user option" where
  "User_findOne q db = find q db"


definition User_save :: "user \<Rightarrow> user list \<Rightarrow> user list" where
  "User_save u db = map (\<lambda>d. if user_id d = user_id u then u else d) db"

section \<open>The libraries the handlers call\<close>

text \<open>
  What the external libraries answer while one request is served:
  \<^verbatim>\<open>jwt.sign(payload, secret, {expiresIn})\<close> (the expiry in seconds), which throws or returns
  the token; \<^verbatim>\<open>bcrypt.hash(data, rounds)\<close> with the salt it draws; \<^verbatim>\<open>bcrypt.compare\<close>;
  the regular-expression engine on the patterns outside the fragment defined below
  (\<open>None\<close>: the pattern is rejected with an exception, otherwise the matcher);
  whether \<^verbatim>\<open>transporter.sendMail\<close> resolves; the configured port and the calendar year.
\<close>

record mail =
  mail_from :: string
  mail_to :: string
  mail_subject :: string
  mail_customMessage :: string
  mail_href :: string
  mail_year :: nat

record env =
  jwt_sign :: "(string \<times> string) list \<Rightarrow> string \<Rightarrow> nat \<Rightarrow> js_error + string"
  bcrypt_hash :: "string \<Rightarrow> nat \<Rightarrow> string"
  bcrypt_compare :: "string \<Rightarrow> string \<Rightarrow> bool"
  regex_engine :: "string \<Rightarrow> (string \<Rightarrow> bool) option"
  sendMail :: "mail \<Rightarrow> bool"
  PORT :: string
  fullYear :: nat

definition JWT_SECRET :: string where
  "JWT_SECRET = ''your-secret-key''"

section \<open>POST /api/login\<close>




section \<open>POST /api/auth/reset-password\<close>








section \<open>POST /api/auth/request-password-reset\<close>

text \<open>
  The lookup of line 1364 hands the store the regular expression
  \<^verbatim>\<open>new RegExp(`^${email}$`, 'i')\<close>, in which the submitted text is the pattern.  The
  fragment fixed here is the one in which pattern and subject are printable ASCII and
  the pattern has no metacharacter other than the dot: there every pattern character
  stands for itself up to letter case and a dot stands for any one character.  Every
  other pattern is left to \<open>regex_engine\<close>.
\<close>

definition upper :: "char \<Rightarrow> nat" where
  "upper c = (let n = of_char c :: nat in if 97 \<le> n \<and> n \<le> 122 then n - 32 else n)"

definition printable :: "char \<Rightarrow> bool" where
  "printable c = (let n = of_char c :: nat in 32 \<le> n \<and> n \<le> 126)"

definition metachar :: "char \<Rightarrow> bool" where
  "metachar c = (c = CHR 0x5C \<or> c \<in> set ''^$*+?()[]{}|'')"

fun wild_match :: "string \<Rightarrow> string \<Rightarrow> bool" where
  "wild_match [] [] = True"
| "wild_match (p # ps) (c # cs) = ((p = CHR ''.'' \<or> upper p = upper c) \<and> wild_match ps cs)"
| "wild_match _ _ = False"

definition email_regex :: "env \<Rightarrow> string \<Rightarrow> (string \<Rightarrow> bool) option" where
  "email_regex e pattern =
    (if list_all printable pattern \<and> \<not> list_ex metachar pattern
     then Some (\<lambda>s. if list_all printable s then wild_match pattern s
                     else (case regex_engine e (''^'' @ pattern @ ''$'') of
                             None \<Rightarrow> False | Some matches \<Rightarrow> matches s))
     else regex_engine e (''^'' @ pattern @ ''$''))"

text \<open>\<^verbatim>\<open>encodeURIComponent\<close> on a string of UTF-8 bytes.\<close>

definition hex_digit :: "nat \<Rightarrow> char" where
  "hex_digit n = ''0123456789ABCDEF'' ! (n mod 16)"

definition unreserved :: "char \<Rightarrow> bool" where
  "unreserved c = (let n = of_char c :: nat in
      (65 \<le> n \<and> n \<le> 90) \<or> (97 \<le> n \<and> n \<le> 122) \<or> (48 \<le> n \<and> n \<le> 57)
      \<or> c = CHR 0x27 \<or> c \<in> set ''-_.!~*()'')"

definition encodeURIComponent :: "string \<Rightarrow> string" where
  "encodeURIComponent s =
     concat (map (\<lambda>c. if unreserved c then [c]
                      else [CHR ''%'', hex_digit (of_char c div 16), hex_digit (of_char c mod 16)]) s)"

text \<open>The template defaults of lines 1388-1394.\<close>

definition defaultSubject :: string where
  "defaultSubject = ''Reset Your Portfolio Password''"

definition defaultCustomMessage :: string where
  "defaultCustomMessage = ''We received a password reset request for your portfolio dashboard account. For your security, this link will only be valid for the next hour. To create a new password and regain access to your account, click the button below:''"

definition shortResetUrl :: "env \<Rightarrow> string \<Rightarrow> string" where
  "shortResetUrl e resetToken' =
     ''http://localhost:'' @ PORT e @ ''/reset-password.html?t=''
       @ encodeURIComponent (take 64 resetToken')"

text \<open>
  The message handed to the transporter.  Of the HTML body only the three interpolated
  parts are kept: the custom message, the target of the button and the year of the footer.
\<close>

definition mailOptions :: "env \<Rightarrow> string \<Rightarrow> user \<Rightarrow> string \<Rightarrow> mail" where
  "mailOptions e to u resetToken' =
     \<lparr>mail_from = ''\"Portfolio Dashboard\" <noreply@portfolio-dashboard.com>'',
      mail_to = to,
      mail_subject =
        or_default (case passwordReset u of None \<Rightarrow> None | Some t \<Rightarrow> subject t) defaultSubject,
      mail_customMessage =
        or_default (case passwordReset u of None \<Rightarrow> None | Some t \<Rightarrow> customMessage t)
          defaultCustomMessage,
      mail_href = shortResetUrl e resetToken',
      mail_year = fullYear e\<rparr>"

text \<open>
  The handler returns the response, the store and the message handed to the transporter,
  if any.  \<open>now\<close> is the \<^verbatim>\<open>Date.now()\<close> of line 1381.
\<close>

definition request_password_reset ::
  "env \<Rightarrow> int \<Rightarrow> string option \<Rightarrow> user list \<Rightarrow> response \<times> user list \<times> mail option"
where
  "request_password_reset e now req_email db =
    (case req_email of
       None \<Rightarrow> (Response 400 (error_body ''Email is required''), db, None)
     | Some address \<Rightarrow>
        if address = [] then (Response 400 (error_body ''Email is required''), db, None)
        else
         (case email_regex e address of
            None \<Rightarrow>
              (Response 500 (error_body ''An error occurred during the password reset process.''),
               db, None)
          | Some matches \<Rightarrow>
             (case User_findOne (\<lambda>u. matches (email u)) db of
                None \<Rightarrow>
                  (Response 404 (error_body ''No account found with this email address.''),
                   db, None)
              | Some u \<Rightarrow>
                 (case jwt_sign e [(''userId'', user_id u), (''email'', email u)]
                         JWT_SECRET 3600 of
                    Inl err \<Rightarrow>
                      (Response 500
                         (error_body ''An error occurred during the password reset process.''),
                       db, None)
                  | Inr resetToken' \<Rightarrow>
                      let hashedToken = bcrypt_hash e resetToken' 10;
                          u' = u\<lparr>resetToken := Some hashedToken,
                                 resetTokenExpires := Some (now + 3600000)\<rparr>;
                          db' = User_save u' db;
                          m = mailOptions e address u' resetToken'
                      in if sendMail e m
                         then (Response 200 (message_body
                                 ''If your email is registered, you will receive a password reset link shortly.''),
                               db', Some m)
                         else (Response 500 (error_body ''Could not send password reset email.''),
                               db', Some m)))))"

section \<open>Sample accounts and library behaviour\<close>

text \<open>
  A deterministic stand-in for the libraries (the token is the payload's values followed
  by a dot and a signature of 64 characters) and two stored accounts, used to evaluate
  the handlers; \<open>admin_link\<close> and \<open>guest_link\<close> are the leading 64 characters of the
  tokens signed for the two accounts.
\<close>

definition env0 :: env where
  "env0 = \<lparr>jwt_sign = (\<lambda>payload secret expiresIn.
              Inr (concat (map snd payload) @ ''.'' @ replicate 64 (CHR ''s''))),
           bcrypt_hash = (\<lambda>pw rounds. ''$2b$'' @ pw),
           bcrypt_compare = (\<lambda>pw h. h = ''$2b$'' @ pw),
           regex_engine = (\<lambda>pattern. None),
           sendMail = (\<lambda>m. True),
           PORT = ''3001'',
           fullYear = 2025\<rparr>"

definition admin0 :: user where
  "admin0 = \<lparr>user_id = ''65f0'', username = ''admin'', password = ''$2b$admin123'',
             email = ''admin@example.com'', passwordReset = None,
             resetToken = Some ''$2b$T'', resetTokenExpires = Some 5000\<rparr>"














section \<open>Writing a value and reading it back\<close>

text \<open>
  \<open>JSON_parse\<close> inverts \<open>JSON_stringify\<close> on every value in which no object carries a
  property twice, and every value that \<open>JSON_parse\<close> returns is of that kind.
\<close>

lemma below_16_cases:
  fixes d :: nat
  assumes "d < 16"
  shows "d = 0 \<or> d = 1 \<or> d = 2 \<or> d = 3 \<or> d = 4 \<or> d = 5 \<or> d = 6 \<or> d = 7 \<or> d = 8
       \<or> d = 9 \<or> d = 10 \<or> d = 11 \<or> d = 12 \<or> d = 13 \<or> d = 14 \<or> d = 15"
  using assms by presburger

lemma hex_val_digit_char: "d < 16 \<Longrightarrow> hex_val (digit_char d) = Some d"
  using below_16_cases [of d] by (auto simp: hex_val_def digit_char_def)

lemma digit_char_is_digit: "d < 10 \<Longrightarrow> is_digit (digit_char d) \<and> (of_char (digit_char d) :: nat) = 48 + d"
  using below_16_cases [of d] by (auto simp: is_digit_def digit_char_def)

lemma cons_char_Some [simp]: "cons_char c (Some (s, r)) = Some (c # s, r)"
  by (simp add: cons_char_def)

lemma parse_string_escape:
  "parse_string (escape_char c @ s) = cons_char c (parse_string s)"
proof (cases "c \<in> {CHR 0x22, CHR 0x5C, CHR 0x08, CHR 0x09, CHR 0x0A, CHR 0x0C, CHR 0x0D}")
  case True
  then show ?thesis
    by (auto simp: escape_char_def unescape_def)
next
  case named: False
  let ?n = "of_char c :: nat"
  show ?thesis
  proof (cases "?n < 32")
    case True
    have d1: "?n div 16 < 16" and d0: "?n mod 16 < 16" using True by auto
    have lt: "?n < 128" using True by simp
    have z: "hex_val (CHR ''0'') = Some 0" by (simp add: hex_val_def)
    show ?thesis
      using named True z hex_val_digit_char [OF d1] hex_val_digit_char [OF d0] lt
      by (simp add: escape_char_def Let_def)
  next
    case False
    then show ?thesis
      using named by (simp add: escape_char_def)
  qed
qed

lemma parse_string_escaped:
  "parse_string (concat (map escape_char str) @ CHR 0x22 # rest) = Some (str, rest)"
  by (induction str) (simp_all add: parse_string_escape)

lemma parse_string_quote:
  "\<exists>body. quote str @ rest = CHR 0x22 # body \<and> parse_string body = Some (str, rest)"
  by (simp add: quote_def parse_string_escaped)


definition follow_ok :: "string \<Rightarrow> bool" where
  "follow_ok rest = (case rest of [] \<Rightarrow> True | c # _ \<Rightarrow> \<not> is_digit c \<and> c \<notin> set ''.eE'')"

lemma show_nat_digits: "list_all is_digit (show_nat n)"
  by (induction n rule: show_nat.induct) (subst show_nat.simps, simp add: digit_char_is_digit)

lemma show_nat_nonempty: "show_nat n \<noteq> []"
  by (subst show_nat.simps) simp

lemma show_nat_head: "0 < n \<Longrightarrow> hd (show_nat n) \<noteq> CHR ''0''"
proof (induction n rule: show_nat.induct)
  case (1 n)
  show ?case
  proof (cases "n < 10")
    case True
    with 1(2) below_16_cases [of n] show ?thesis
      by (subst show_nat.simps) (auto simp: digit_char_def)
  next
    case False
    then have "hd (show_nat (n div 10)) \<noteq> CHR ''0''"
      using 1(1) by simp
    with False show_nat_nonempty [of "n div 10"] show ?thesis
      by (subst show_nat.simps) simp
  qed
qed

lemma parse_digits_append:
  "list_all is_digit xs \<Longrightarrow>
     parse_digits acc (xs @ ys) = parse_digits (foldl (\<lambda>a c. 10 * a + (of_char c - 48)) acc xs) ys"
  by (induction xs arbitrary: acc) simp_all

lemma foldl_show_nat:
  "foldl (\<lambda>a c. 10 * a + (of_char c - 48)) acc (show_nat n) = acc * 10 ^ length (show_nat n) + n"
proof (induction n arbitrary: acc rule: show_nat.induct)
  case (1 n)
  show ?case
  proof (cases "n < 10")
    case True
    then show ?thesis
      by (subst (1 2) show_nat.simps) (simp add: digit_char_is_digit)
  next
    case False
    have m: "n mod 10 < 10" by simp
    show ?thesis
      using False 1 [OF False] digit_char_is_digit [OF m]
      by (subst (1 2) show_nat.simps) (simp add: algebra_simps)
  qed
qed

lemma parse_digits_stop: "follow_ok rest \<Longrightarrow> parse_digits acc rest = (acc, rest)"
  by (cases rest) (simp_all add: follow_ok_def)

lemma parse_digits_show_nat:
  "follow_ok rest \<Longrightarrow> parse_digits 0 (show_nat n @ rest) = (n, rest)"
  by (simp add: parse_digits_append show_nat_digits foldl_show_nat parse_digits_stop)

lemma parse_nat_show_nat:
  assumes "follow_ok rest"
  shows "parse_nat (show_nat n @ rest) = Some (n, rest)"
proof -
  obtain c r where cr: "show_nat n = c # r"
    using show_nat_nonempty [of n] by (cases "show_nat n") auto
  have dig: "is_digit c"
    using show_nat_digits [of n] cr by simp
  have lead: "\<not> (c = CHR ''0'' \<and> (case r @ rest of [] \<Rightarrow> False | d # _ \<Rightarrow> is_digit d))"
  proof (cases "n = 0")
    case True
    then have "r = []" using cr by (subst (asm) show_nat.simps) simp
    then show ?thesis using assms by (cases rest) (simp_all add: follow_ok_def)
  next
    case False
    then show ?thesis using show_nat_head [of n] cr by simp
  qed
  have stop: "\<not> (case rest of [] \<Rightarrow> False | d # _ \<Rightarrow> d \<in> set ''.eE'')"
    using assms by (cases rest) (simp_all add: follow_ok_def)
  have "parse_digits 0 (c # r @ rest) = (n, rest)"
    using parse_digits_show_nat [OF assms, of n] cr by simp
  then show ?thesis
    using dig lead stop cr by (simp add: parse_nat_def del: parse_digits.simps)
qed

lemma minus_not_digit: "\<not> is_digit (CHR ''-'')"
  by (simp add: is_digit_def)

lemma parse_number_show_int:
  assumes "follow_ok rest"
  shows "parse_number (show_int i @ rest) = Some (JNum i, rest)"
proof (cases "i < 0")
  case True
  from parse_nat_show_nat [OF assms, of "nat (- i)"] True show ?thesis
    by (simp add: parse_number_def show_int_def)
next
  case False
  obtain c r where cr: "show_nat (nat i) = c # r"
    using show_nat_nonempty [of "nat i"] by (cases "show_nat (nat i)") auto
  have "is_digit c" using show_nat_digits [of "nat i"] cr by simp
  then have c: "c \<noteq> CHR ''-''" using minus_not_digit by auto
  from parse_nat_show_nat [OF assms, of "nat i"] False c cr show ?thesis
    by (simp add: parse_number_def show_int_def)
qed


fun fuel :: "json \<Rightarrow> nat" where
  "fuel (JArr vs) = Suc (sum_list (map (\<lambda>v. Suc (fuel v)) vs))"
| "fuel (JObj kvs) = Suc (sum_list (map (\<lambda>(k, v). Suc (fuel v)) kvs))"
| "fuel _ = 1"

fun wf_json :: "json \<Rightarrow> bool" where
  "wf_json (JArr vs) = list_all wf_json vs"
| "wf_json (JObj kvs) = (distinct (map fst kvs) \<and> list_all (\<lambda>(k, v). wf_json v) kvs)"
| "wf_json _ = True"

lemma skip_ws_newline [simp]: "skip_ws (newline k @ s) = skip_ws s"
  by (induction k) (simp_all add: newline_def is_ws_def)

lemma skip_ws_idem [simp]: "skip_ws (skip_ws s) = skip_ws s"
  by (induction s) simp_all

lemma parse_value_skip_ws: "parse_value n (skip_ws s) = parse_value n s"
  by (cases n) simp_all

lemma parse_value_newline [simp]: "parse_value n (newline k @ s) = parse_value n s"
  using parse_value_skip_ws [of n "newline k @ s"] parse_value_skip_ws [of n s] by simp

lemma parse_elements_newline [simp]: "parse_elements n (newline k @ s) = parse_elements n s"
  by (cases n) simp_all

lemma parse_members_newline [simp]: "parse_members n (newline k @ s) = parse_members n s"
  by (cases n) simp_all

lemma follow_ok_simps [simp]:
  "follow_ok []" "follow_ok (newline k @ s)" "follow_ok (CHR '','' # s)"
  by (simp_all add: follow_ok_def newline_def is_digit_def)

lemma show_int_head:
  "\<exists>c r. show_int i = c # r \<and> (is_digit c \<or> c = CHR ''-'')"
proof -
  obtain c r where cr: "show_nat (nat i) = c # r"
    using show_nat_nonempty [of "nat i"] by (cases "show_nat (nat i)") auto
  then have "is_digit c" using show_nat_digits [of "nat i"] by simp
  with cr show ?thesis by (simp add: show_int_def)
qed


lemma parse_value_null: "parse_value (Suc m) (''null'' @ rest) = Some (JNull, rest)"
  by (simp add: is_ws_def parse_atom_def)

lemma parse_value_bool:
  "parse_value (Suc m) ((if b then ''true'' else ''false'') @ rest) = Some (JBool b, rest)"
  by (simp add: is_ws_def parse_atom_def)

lemma parse_value_num:
  assumes "follow_ok rest"
  shows "parse_value (Suc m) (show_int i @ rest) = Some (JNum i, rest)"
proof -
  obtain c r where cr: "show_int i = c # r" and c: "is_digit c \<or> c = CHR ''-''"
    using show_int_head by blast
  have "\<not> is_ws c" "c \<noteq> CHR ''[''" "c \<noteq> CHR ''{''" "c \<noteq> CHR 0x22"
       "c \<noteq> CHR ''n''" "c \<noteq> CHR ''t''" "c \<noteq> CHR ''f''"
    using c by (auto simp: is_digit_def is_ws_def)
  then have "parse_value (Suc m) (c # r @ rest) = parse_number (c # r @ rest)"
    by (simp add: parse_atom_def)
  then show ?thesis
    using parse_number_show_int [OF assms, of i] cr by simp
qed

lemma parse_value_str: "parse_value (Suc m) (quote s @ rest) = Some (JStr s, rest)"
proof -
  obtain body where "quote s @ rest = CHR 0x22 # body" "parse_string body = Some (s, rest)"
    using parse_string_quote by blast
  then show ?thesis by (simp add: is_ws_def)
qed

lemma stringify_head:
  "\<exists>c r. stringify ind v = c # r \<and> \<not> is_ws c \<and> c \<noteq> CHR '']'' \<and> c \<noteq> CHR ''}''"
proof (cases v)
  case (JNum i)
  obtain c r where "show_int i = c # r" "is_digit c \<or> c = CHR ''-''"
    using show_int_head by blast
  then show ?thesis using JNum by (auto simp: is_digit_def is_ws_def)
qed (auto simp: is_ws_def quote_def)

lemma join_head:
  assumes "xs \<noteq> []"
  shows "\<exists>r. join sep xs @ s = hd xs @ r"
  using assms by (induction sep xs rule: join.induct) auto


lemma parse_elements_join:
  assumes IH: "\<And>v n rest. v \<in> set vs \<Longrightarrow> fuel v \<le> n \<Longrightarrow> follow_ok rest \<Longrightarrow>
                 parse_value n (stringify ind v @ rest) = Some (v, rest)"
    and "vs \<noteq> []" and "sum_list (map (\<lambda>v. Suc (fuel v)) vs) \<le> n"
  shows "parse_elements n
           (join (CHR '','' # newline ind) (map (stringify ind) vs) @ newline k @ CHR '']'' # rest)
         = Some (vs, rest)"
  using assms
proof (induction vs arbitrary: n)
  case Nil
  then show ?case by simp
next
  case (Cons v vs)
  from Cons.prems(3) obtain m where n: "n = Suc m" and m: "fuel v \<le> m"
    and ms: "sum_list (map (\<lambda>v. Suc (fuel v)) vs) \<le> m"
    by (cases n) auto
  show ?case
  proof (cases vs)
    case Nil
    have "parse_value m (stringify ind v @ newline k @ CHR '']'' # rest)
            = Some (v, newline k @ CHR '']'' # rest)"
      using Cons.prems(1) [of v m] m by simp
    then show ?thesis
      using Nil n by (simp add: is_ws_def)
  next
    case (Cons w ws)
    let ?tail = "join (CHR '','' # newline ind) (map (stringify ind) vs) @ newline k @ CHR '']'' # rest"
    have v: "parse_value m (stringify ind v @ CHR '','' # newline ind @ ?tail)
            = Some (v, CHR '','' # newline ind @ ?tail)"
      using Cons.prems(1) [of v m] m by simp
    have "parse_elements m ?tail = Some (vs, rest)"
      using Cons.IH [of m] Cons.prems(1) ms Cons by simp
    then show ?thesis
      using Cons n v by (simp add: is_ws_def)
  qed
qed


lemma parse_value_space [simp]: "parse_value n (CHR '' '' # s) = parse_value n s"
  using parse_value_skip_ws [of n "CHR '' '' # s"] parse_value_skip_ws [of n s]
  by (simp add: is_ws_def)

lemma parse_members_join:
  assumes IH: "\<And>key v n rest. (key, v) \<in> set kvs \<Longrightarrow> fuel v \<le> n \<Longrightarrow> follow_ok rest \<Longrightarrow>
                 parse_value n (stringify ind v @ rest) = Some (v, rest)"
    and "kvs \<noteq> []" and "sum_list (map (\<lambda>(key, v). Suc (fuel v)) kvs) \<le> n"
  shows "parse_members n
           (join (CHR '','' # newline ind)
              (map (\<lambda>(key, v). quote key @ '': '' @ stringify ind v) kvs)
            @ newline k @ CHR ''}'' # rest)
         = Some (kvs, rest)"
  using assms
proof (induction kvs arbitrary: n)
  case Nil
  then show ?case by simp
next
  case (Cons kv kvs)
  obtain key v where kv: "kv = (key, v)" by (cases kv)
  from Cons.prems(3) kv obtain m where n: "n = Suc m" and m: "fuel v \<le> m"
    and ms: "sum_list (map (\<lambda>(key, v). Suc (fuel v)) kvs) \<le> m"
    by (cases n) auto
  have member: "\<And>R. follow_ok R \<Longrightarrow>
      \<exists>body. (quote key @ '': '' @ stringify ind v) @ R = CHR 0x22 # body
           \<and> parse_string body = Some (key, '': '' @ stringify ind v @ R)
           \<and> parse_value m (stringify ind v @ R) = Some (v, R)"
  proof -
    fix R assume R: "follow_ok R"
    obtain body where "quote key @ ('': '' @ stringify ind v @ R) = CHR 0x22 # body"
      "parse_string body = Some (key, '': '' @ stringify ind v @ R)"
      using parse_string_quote by blast
    moreover have "parse_value m (stringify ind v @ R) = Some (v, R)"
      using Cons.prems(1) [of key v m R] m R kv by simp
    ultimately show "\<exists>body. (quote key @ '': '' @ stringify ind v) @ R = CHR 0x22 # body
           \<and> parse_string body = Some (key, '': '' @ stringify ind v @ R)
           \<and> parse_value m (stringify ind v @ R) = Some (v, R)"
      by simp
  qed
  show ?case
  proof (cases kvs)
    case Nil
    obtain body where "(quote key @ '': '' @ stringify ind v) @ newline k @ CHR ''}'' # rest
          = CHR 0x22 # body"
      "parse_string body = Some (key, '': '' @ stringify ind v @ newline k @ CHR ''}'' # rest)"
      "parse_value m (stringify ind v @ newline k @ CHR ''}'' # rest)
          = Some (v, newline k @ CHR ''}'' # rest)"
      using member [of "newline k @ CHR ''}'' # rest"] by auto
    then show ?thesis
      using Nil n kv by (simp add: is_ws_def)
  next
    case (Cons kv' kvs')
    let ?tail = "join (CHR '','' # newline ind)
                   (map (\<lambda>(key, v). quote key @ '': '' @ stringify ind v) kvs)
                 @ newline k @ CHR ''}'' # rest"
    obtain body where "(quote key @ '': '' @ stringify ind v) @ CHR '','' # newline ind @ ?tail
          = CHR 0x22 # body"
      "parse_string body = Some (key, '': '' @ stringify ind v @ CHR '','' # newline ind @ ?tail)"
      "parse_value m (stringify ind v @ CHR '','' # newline ind @ ?tail)
          = Some (v, CHR '','' # newline ind @ ?tail)"
      using member [of "CHR '','' # newline ind @ ?tail"] by auto
    moreover have "parse_members m ?tail = Some (kvs, rest)"
    proof (rule Cons.IH)
      show "\<And>key v n rest. (key, v) \<in> set kvs \<Longrightarrow> fuel v \<le> n \<Longrightarrow> follow_ok rest \<Longrightarrow>
                 parse_value n (stringify ind v @ rest) = Some (v, rest)"
        using Cons.prems(1) by (meson list.set_intros(2))
      show "kvs \<noteq> []" using Cons by simp
      show "sum_list (map (\<lambda>(key, v). Suc (fuel v)) kvs) \<le> m" by (rule ms)
    qed
    ultimately show ?thesis
      using Cons n kv by (simp add: is_ws_def)
  qed
qed

lemma obj_put_fresh: "key \<notin> fst ` set acc \<Longrightarrow> obj_put acc key v = acc @ [(key, v)]"
  by (induction acc) auto

lemma foldl_obj_put:
  "distinct (map fst (acc @ kvs)) \<Longrightarrow>
     foldl (\<lambda>acc (key, v). obj_put acc key v) acc kvs = acc @ kvs"
proof (induction kvs arbitrary: acc)
  case Nil
  then show ?case by simp
next
  case (Cons kv kvs)
  obtain key v where kv: "kv = (key, v)" by (cases kv)
  have "obj_put acc key v = acc @ [(key, v)]"
    using Cons.prems kv by (intro obj_put_fresh) auto
  moreover have "distinct (map fst ((acc @ [(key, v)]) @ kvs))"
    using Cons.prems kv by simp
  ultimately show ?case
    using Cons.IH [of "acc @ [(key, v)]"] kv by simp
qed

lemma obj_of_members_distinct: "distinct (map fst kvs) \<Longrightarrow> obj_of_members kvs = kvs"
  using foldl_obj_put [of "[]" kvs] by (simp add: obj_of_members_def)


lemma parse_value_stringify:
  "wf_json v \<Longrightarrow> fuel v \<le> n \<Longrightarrow> follow_ok rest \<Longrightarrow>
     parse_value n (stringify ind v @ rest) = Some (v, rest)"
proof (induction v arbitrary: ind n rest)
  case JNull
  then show ?case using parse_value_null by (cases n) simp_all
next
  case (JBool b)
  then show ?case using parse_value_bool [of _ b rest] by (cases n) simp_all
next
  case (JNum i)
  then show ?case using parse_value_num [of rest _ i] by (cases n) simp_all
next
  case (JStr s)
  then show ?case using parse_value_str [of _ s rest] by (cases n) simp_all
next
  case (JArr vs)
  from JArr.prems(2) obtain m where n: "n = Suc m"
    and m: "sum_list (map (\<lambda>v. Suc (fuel v)) vs) \<le> m"
    by (cases n) auto
  show ?case
  proof (cases "vs = []")
    case True
    then show ?thesis using n by (simp add: is_ws_def)
  next
    case False
    let ?body = "join (CHR '','' # newline (ind + 2)) (map (stringify (ind + 2)) vs)
                 @ newline ind @ CHR '']'' # rest"
    have elems: "parse_elements m ?body = Some (vs, rest)"
    proof (rule parse_elements_join [OF _ False m])
      fix v n rest assume "v \<in> set vs" "fuel v \<le> n" "follow_ok rest"
      then show "parse_value n (stringify (ind + 2) v @ rest) = Some (v, rest)"
        using JArr.IH [of v n rest "ind + 2"] JArr.prems(1) by (simp add: list_all_iff)
    qed
    obtain r where "?body = hd (map (stringify (ind + 2)) vs) @ r"
      using join_head [of "map (stringify (ind + 2)) vs"] False by auto
    moreover obtain c r' where "hd (map (stringify (ind + 2)) vs) = c # r'"
      "\<not> is_ws c" "c \<noteq> CHR '']''"
      using stringify_head [of "ind + 2" "hd vs"] False by (auto simp: hd_map)
    ultimately obtain c rr where body: "?body = c # rr" and c: "\<not> is_ws c" "c \<noteq> CHR '']''"
      by auto
    have "stringify ind (JArr vs) @ rest = CHR ''['' # newline (ind + 2) @ ?body"
      using False by simp
    then show ?thesis
      using n elems c unfolding body by (simp add: is_ws_def)
  qed
next
  case (JObj kvs)
  from JObj.prems(2) obtain m where n: "n = Suc m"
    and m: "sum_list (map (\<lambda>(key, v). Suc (fuel v)) kvs) \<le> m"
    by (cases n) auto
  have keys: "obj_of_members kvs = kvs"
    using JObj.prems(1) by (simp add: obj_of_members_distinct)
  show ?case
  proof (cases "kvs = []")
    case True
    then show ?thesis using n by (simp add: is_ws_def)
  next
    case False
    let ?body = "join (CHR '','' # newline (ind + 2))
                   (map (\<lambda>(key, v). quote key @ '': '' @ stringify (ind + 2) v) kvs)
                 @ newline ind @ CHR ''}'' # rest"
    have members: "parse_members m ?body = Some (kvs, rest)"
    proof (rule parse_members_join [OF _ False m])
      fix key v n rest assume "(key, v) \<in> set kvs" "fuel v \<le> n" "follow_ok rest"
      then show "parse_value n (stringify (ind + 2) v @ rest) = Some (v, rest)"
        using JObj.IH [of "(key, v)" v n rest "ind + 2"] JObj.prems(1)
        by (auto simp: list_all_iff)
    qed
    obtain r where "?body = hd (map (\<lambda>(key, v). quote key @ '': '' @ stringify (ind + 2) v) kvs) @ r"
      using join_head [of "map (\<lambda>(key, v). quote key @ '': '' @ stringify (ind + 2) v) kvs"] False
      by auto
    then obtain rr where body: "?body = CHR 0x22 # rr"
      using False by (cases kvs) (auto simp: quote_def)
    have "stringify ind (JObj kvs) @ rest = CHR ''{'' # newline (ind + 2) @ ?body"
      using False by simp
    then show ?thesis
      using n members keys unfolding body by (simp add: is_ws_def)
  qed
qed


lemma length_join_lower:
  assumes "\<And>x. x \<in> set xs \<Longrightarrow> f x \<le> length (g x)"
  shows "sum_list (map (\<lambda>x. Suc (f x)) xs) \<le> Suc (length (join (c # sep) (map g xs)))"
  using assms
proof (induction xs)
  case Nil
  then show ?case by simp
next
  case (Cons x xs)
  have x: "f x \<le> length (g x)" using Cons.prems by simp
  show ?case
  proof (cases xs)
    case Nil
    then show ?thesis using x by simp
  next
    case (Cons y ys)
    have "sum_list (map (\<lambda>x. Suc (f x)) xs) \<le> Suc (length (join (c # sep) (map g xs)))"
      using Cons.IH Cons.prems by simp
    then show ?thesis using x Cons by simp
  qed
qed

lemma fuel_le_length: "fuel v \<le> length (stringify ind v)"
proof (induction v arbitrary: ind)
  case (JArr vs)
  show ?case
  proof (cases "vs = []")
    case False
    have "sum_list (map (\<lambda>v. Suc (fuel v)) vs)
            \<le> Suc (length (join (CHR '','' # newline (ind + 2)) (map (stringify (ind + 2)) vs)))"
      by (rule length_join_lower) (use JArr.IH in simp_all)
    then show ?thesis using False by (simp add: newline_def)
  qed simp
next
  case (JObj kvs)
  show ?case
  proof (cases "kvs = []")
    case False
    have "sum_list (map (\<lambda>kv. Suc (fuel (snd kv))) kvs)
            \<le> Suc (length (join (CHR '','' # newline (ind + 2))
                      (map (\<lambda>kv. quote (fst kv) @ '': '' @ stringify (ind + 2) (snd kv)) kvs)))"
    proof (rule length_join_lower)
      fix kv assume "kv \<in> set kvs"
      moreover have "snd kv \<in> Basic_BNFs.snds kv"
        by (cases kv) simp
      ultimately have "fuel (snd kv) \<le> length (stringify (ind + 2) (snd kv))"
        using JObj.IH [of kv "snd kv" "ind + 2"] by simp
      then show "fuel (snd kv) \<le> length (quote (fst kv) @ '': '' @ stringify (ind + 2) (snd kv))"
        by simp
    qed
    then show ?thesis using False by (simp add: newline_def case_prod_unfold)
  qed simp
qed (simp_all add: show_int_def quote_def show_nat_nonempty Suc_leI)

lemma JSON_parse_stringify: "wf_json v \<Longrightarrow> JSON_parse (JSON_stringify v) = Some v"
proof -
  assume wf: "wf_json v"
  have "fuel v \<le> 2 * length (stringify 0 v) + 2"
    using fuel_le_length [of v 0] by simp
  then have "parse_value (2 * length (stringify 0 v) + 2) (stringify 0 v @ []) = Some (v, [])"
    using wf by (intro parse_value_stringify) simp_all
  then show ?thesis
    by (simp add: JSON_parse_def JSON_stringify_def)
qed


lemma obj_put_keys:
  "map fst (obj_put kvs key v) =
     (if key \<in> set (map fst kvs) then map fst kvs else map fst kvs @ [key])"
  by (induction kvs) (force+)

lemma obj_put_distinct: "distinct (map fst kvs) \<Longrightarrow> distinct (map fst (obj_put kvs key v))"
  by (simp add: obj_put_keys)

lemma obj_put_all:
  "list_all (\<lambda>(key, v). P v) kvs \<Longrightarrow> P v \<Longrightarrow> list_all (\<lambda>(key, v). P v) (obj_put kvs key v)"
  by (induction kvs) auto

lemma foldl_obj_put_wf:
  "distinct (map fst acc) \<Longrightarrow> list_all (\<lambda>(key, v). P v) acc \<Longrightarrow>
   list_all (\<lambda>(key, v). P v) ms \<Longrightarrow>
     distinct (map fst (foldl (\<lambda>acc (key, v). obj_put acc key v) acc ms))
     \<and> list_all (\<lambda>(key, v). P v) (foldl (\<lambda>acc (key, v). obj_put acc key v) acc ms)"
proof (induction ms arbitrary: acc)
  case Nil
  then show ?case by simp
next
  case (Cons m ms)
  obtain key v where m: "m = (key, v)" by (cases m)
  show ?case
    using Cons.IH [of "obj_put acc key v"] Cons.prems m
    by (simp add: obj_put_distinct obj_put_all)
qed

lemma obj_of_members_wf:
  "list_all (\<lambda>(key, v). wf_json v) ms \<Longrightarrow> wf_json (JObj (obj_of_members ms))"
  using foldl_obj_put_wf [of "[]" wf_json ms] by (simp add: obj_of_members_def)

lemma parse_atom_wf: "parse_atom s = Some (v, r) \<Longrightarrow> wf_json v"
  by (auto simp: parse_atom_def parse_number_def split: option.splits list.splits if_splits)

lemma parse_wf:
  "(parse_value n s = Some (v, r) \<longrightarrow> wf_json v)
   \<and> (parse_elements n s = Some (vs, r) \<longrightarrow> list_all wf_json vs)
   \<and> (parse_members n s = Some (ms, r) \<longrightarrow> list_all (\<lambda>(key, v). wf_json v) ms)"
proof (induction n arbitrary: s v r vs ms)
  case 0
  then show ?case by simp
next
  case (Suc n)
  have val: "parse_value (Suc n) s = Some (v, r) \<Longrightarrow> wf_json v"
    using Suc [THEN conjunct2, THEN conjunct1] Suc [THEN conjunct2, THEN conjunct2]
    by (auto split: list.splits if_splits option.splits
             dest: parse_atom_wf intro: obj_of_members_wf)
  have elements: "parse_elements (Suc n) s = Some (vs, r) \<Longrightarrow> list_all wf_json vs"
    using Suc [THEN conjunct1] Suc [THEN conjunct2, THEN conjunct1]
    by (auto split: list.splits if_splits option.splits)
  have members: "parse_members (Suc n) s = Some (ms, r) \<Longrightarrow> list_all (\<lambda>(key, v). wf_json v) ms"
    using Suc [THEN conjunct1] Suc [THEN conjunct2, THEN conjunct2]
    by (auto split: list.splits if_splits option.splits)
  from val elements members show ?case by blast
qed

lemma JSON_parse_wf: "JSON_parse s = Some v \<Longrightarrow> wf_json v"
  using parse_wf [of "2 * length s + 2" s v]
  by (auto simp: JSON_parse_def split: option.splits if_splits)

text \<open>
  The bound that \<open>JSON_parse\<close> passes to the parser is never the reason for a rejection:
  every successful step consumes input, and a larger bound gives the same result.
\<close>

lemma skip_ws_length: "length (skip_ws s) \<le> length s"
  by (induction s) auto

lemma skip_ws_Cons_length: "skip_ws s = c # r \<Longrightarrow> length r < length s"
  using skip_ws_length [of s] by simp

lemma cons_char_SomeD: "cons_char c x = Some (k, r) \<Longrightarrow> \<exists>k'. x = Some (k', r)"
  by (auto simp: cons_char_def split: option.splits)

lemma parse_string_shorter: "parse_string s = Some (k, r) \<Longrightarrow> length r < length s"
proof (induction s arbitrary: k r rule: length_induct)
  case (1 s)
  have IH: "\<And>t k r. length t < length s \<Longrightarrow> parse_string t = Some (k, r) \<Longrightarrow> length r < length t"
    using 1(1) by blast
  from 1(2) obtain c t where s: "s = c # t" by (cases s) auto
  have tail: "\<And>t' x k r. cons_char x (parse_string t') = Some (k, r) \<Longrightarrow> length t' \<le> length t
                 \<Longrightarrow> length r < Suc (length t)"
  proof -
    fix t' x k r assume "cons_char x (parse_string t') = Some (k, r)" and le: "length t' \<le> length t"
    then obtain k' where "parse_string t' = Some (k', r)" by (auto dest: cons_char_SomeD)
    then have "length r < length t'" using IH [of t' k' r] le s by simp
    then show "length r < Suc (length t)" using le by simp
  qed
  show ?case
    using 1(2) unfolding s
    by (auto simp: Let_def split: if_splits list.splits option.splits prod.splits
             dest!: tail)
qed

lemma parse_digits_length: "parse_digits acc s = (n, r) \<Longrightarrow> length r \<le> length s"
  by (induction s arbitrary: acc) (auto split: if_splits intro: le_SucI)

lemma parse_digits_shorter:
  "is_digit c \<Longrightarrow> parse_digits acc (c # s) = (n, r) \<Longrightarrow> length r < length (c # s)"
  using parse_digits_length [of "10 * acc + (of_char c - 48)" s n r] by simp

lemma parse_nat_shorter: "parse_nat s = Some (n, r) \<Longrightarrow> length r < length s"
  by (auto simp: parse_nat_def simp del: parse_digits.simps
           split: list.splits if_splits prod.splits
           dest: parse_digits_shorter)

lemma strip_prefix_length: "strip_prefix p s = Some r \<Longrightarrow> length r + length p = length s"
  by (induction p s rule: strip_prefix.induct) (auto split: if_splits)

lemma parse_atom_shorter: "parse_atom s = Some (v, r) \<Longrightarrow> length r < length s"
  by (auto simp: parse_atom_def parse_number_def
           split: option.splits list.splits if_splits
           dest!: strip_prefix_length parse_nat_shorter)


lemma parse_shorter:
  "(parse_value n s = Some (v, r) \<longrightarrow> length r < length s)
   \<and> (parse_elements n s = Some (vs, r) \<longrightarrow> length r < length s)
   \<and> (parse_members n s = Some (ms, r) \<longrightarrow> length r < length s)"
proof (induction n arbitrary: s v r vs ms)
  case 0
  then show ?case by simp
next
  case (Suc n)
  have val: "\<And>s v r. parse_value n s = Some (v, r) \<Longrightarrow> length r < length s"
    and elems: "\<And>s vs r. parse_elements n s = Some (vs, r) \<Longrightarrow> length r < length s"
    and membs: "\<And>s ms r. parse_members n s = Some (ms, r) \<Longrightarrow> length r < length s"
    using Suc by blast+
  have 1: "parse_value (Suc n) s = Some (v, r) \<Longrightarrow> length r < length s"
  proof -
    assume a: "parse_value (Suc n) s = Some (v, r)"
    then obtain c r0 where c: "skip_ws s = c # r0"
      by (cases "skip_ws s") auto
    then have r0: "length r0 < length s" by (rule skip_ws_Cons_length)
    have inner: "\<And>c' r'. skip_ws r0 = c' # r' \<Longrightarrow> length (c' # r') \<le> length r0"
      using skip_ws_length [of r0] by simp
    show ?thesis
      using a c r0
      by (auto split: list.splits if_splits option.splits
               dest!: elems membs parse_string_shorter parse_atom_shorter inner)
  qed
  have 2: "parse_elements (Suc n) s = Some (vs, r) \<Longrightarrow> length r < length s"
  proof -
    assume a: "parse_elements (Suc n) s = Some (vs, r)"
    then obtain v r1 where v: "parse_value n s = Some (v, r1)"
      by (auto split: option.splits)
    then have r1: "length r1 < length s" by (rule val)
    from a v obtain c r2 where c: "skip_ws r1 = c # r2"
      by (cases "skip_ws r1") auto
    then have r2: "length r2 < length r1" by (rule skip_ws_Cons_length)
    show ?thesis
      using a v c r1 r2
      by (auto split: if_splits option.splits dest!: elems)
  qed
  have 3: "parse_members (Suc n) s = Some (ms, r) \<Longrightarrow> length r < length s"
  proof -
    assume a: "parse_members (Suc n) s = Some (ms, r)"
    then obtain q r0 where q: "skip_ws s = q # r0"
      by (cases "skip_ws s") auto
    then have r0: "length r0 < length s" by (rule skip_ws_Cons_length)
    from a q obtain k r1 where k: "parse_string r0 = Some (k, r1)"
      by (auto split: if_splits option.splits)
    then have r1: "length r1 < length r0" by (rule parse_string_shorter)
    from a q k obtain colon r2 where colon: "skip_ws r1 = colon # r2"
      by (cases "skip_ws r1") (auto split: if_splits)
    then have r2: "length r2 < length r1" by (rule skip_ws_Cons_length)
    from a q k colon obtain x r3 where x: "parse_value n r2 = Some (x, r3)"
      by (auto split: if_splits option.splits)
    then have r3: "length r3 < length r2" by (rule val)
    from a q k colon x obtain c r4 where c: "skip_ws r3 = c # r4"
      by (cases "skip_ws r3") (auto split: if_splits)
    then have r4: "length r4 < length r3" by (rule skip_ws_Cons_length)
    show ?thesis
      using a q k colon x c r0 r1 r2 r3 r4
      by (auto split: if_splits option.splits dest!: membs)
  qed
  from 1 2 3 show ?case by blast
qed


lemma parse_fuel:
  "(2 * length s + 1 \<le> n \<longrightarrow> parse_value (Suc n) s = parse_value n s)
   \<and> (2 * length s + 2 \<le> n \<longrightarrow> parse_elements (Suc n) s = parse_elements n s)
   \<and> (2 * length s + 2 \<le> n \<longrightarrow> parse_members (Suc n) s = parse_members n s)"
proof (induction n arbitrary: s)
  case 0
  then show ?case by simp
next
  case (Suc n)
  have val: "\<And>s. 2 * length s + 1 \<le> n \<Longrightarrow> parse_value (Suc n) s = parse_value n s"
    and elems: "\<And>s. 2 * length s + 2 \<le> n \<Longrightarrow> parse_elements (Suc n) s = parse_elements n s"
    and membs: "\<And>s. 2 * length s + 2 \<le> n \<Longrightarrow> parse_members (Suc n) s = parse_members n s"
    using Suc by blast+
  have 1: "parse_value (Suc (Suc n)) s = parse_value (Suc n) s" if n: "2 * length s + 1 \<le> Suc n"
  proof (cases "skip_ws s")
    case Nil
    then show ?thesis by simp
  next
    case (Cons c r0)
    then have r0: "length r0 < length s" by (rule skip_ws_Cons_length)
    have inner: "parse_elements (Suc n) (c' # r') = parse_elements n (c' # r')"
                "parse_members (Suc n) (c' # r') = parse_members n (c' # r')"
      if "skip_ws r0 = c' # r'" for c' r'
    proof -
      have "length (c' # r') \<le> length r0"
        using skip_ws_length [of r0] that by simp
      then have "2 * length (c' # r') + 2 \<le> n" using r0 n by simp
      then show "parse_elements (Suc n) (c' # r') = parse_elements n (c' # r')"
                "parse_members (Suc n) (c' # r') = parse_members n (c' # r')"
        by (rule elems, rule membs)
    qed
    show ?thesis
      using Cons inner
      by (simp del: parse_elements.simps parse_members.simps split: list.splits)
  qed
  have 2: "parse_elements (Suc (Suc n)) s = parse_elements (Suc n) s"
    if n: "2 * length s + 2 \<le> Suc n"
  proof -
    have pv: "parse_value (Suc n) s = parse_value n s"
      using n by (intro val) simp
    show ?thesis
    proof (cases "parse_value n s")
      case None
      then show ?thesis using pv by simp
    next
      case (Some a)
      obtain v r1 where a: "a = (v, r1)" by (cases a)
      have r1: "length r1 < length s"
        using parse_shorter [of n s v r1] Some a by simp
      have inner: "parse_elements (Suc n) r2 = parse_elements n r2" if "skip_ws r1 = c # r2" for c r2
      proof -
        have "length r2 < length r1" using that by (rule skip_ws_Cons_length)
        then have "2 * length r2 + 2 \<le> n" using r1 n by simp
        then show ?thesis by (rule elems)
      qed
      show ?thesis
        using Some a pv inner
        by (subst (1 2) parse_elements.simps(2))
           (simp del: parse_elements.simps split: list.splits)
    qed
  qed
  have 3: "parse_members (Suc (Suc n)) s = parse_members (Suc n) s"
    if n: "2 * length s + 2 \<le> Suc n"
  proof -
    have inner: "parse_value (Suc n) r2 = parse_value n r2"
      if "skip_ws s = q # r0" "parse_string r0 = Some (k, r1)" "skip_ws r1 = colon # r2"
      for q r0 k r1 colon r2
    proof -
      have "length r0 < length s" using that(1) by (rule skip_ws_Cons_length)
      moreover have "length r1 < length r0" using that(2) by (rule parse_string_shorter)
      moreover have "length r2 < length r1" using that(3) by (rule skip_ws_Cons_length)
      ultimately have "2 * length r2 + 1 \<le> n" using n by simp
      then show ?thesis by (rule val)
    qed
    have inner': "parse_members (Suc n) r4 = parse_members n r4"
      if "skip_ws s = q # r0" "parse_string r0 = Some (k, r1)" "skip_ws r1 = colon # r2"
         "parse_value n r2 = Some (x, r3)" "skip_ws r3 = c # r4"
      for q r0 k r1 colon r2 x r3 c r4
    proof -
      have "length r0 < length s" using that(1) by (rule skip_ws_Cons_length)
      moreover have "length r1 < length r0" using that(2) by (rule parse_string_shorter)
      moreover have "length r2 < length r1" using that(3) by (rule skip_ws_Cons_length)
      moreover have "length r3 < length r2" using parse_shorter [of n r2 x r3] that(4) by simp
      moreover have "length r4 < length r3" using that(5) by (rule skip_ws_Cons_length)
      ultimately have "2 * length r4 + 2 \<le> n" using n by simp
      then show ?thesis by (rule membs)
    qed
    show ?thesis
      using inner inner'
      by (subst (1 2) parse_members.simps(2))
         (simp del: parse_members.simps parse_value.simps
               split: list.splits option.splits prod.splits)
  qed
  from 1 2 3 show ?case by blast
qed

lemma parse_value_fuel:
  assumes "2 * length s + 1 \<le> n" and "n \<le> m"
  shows "parse_value m s = parse_value n s"
  using assms(2,1)
proof (induction m rule: dec_induct)
  case base
  show ?case by simp
next
  case (step k)
  then have "2 * length s + 1 \<le> k" by simp
  then have "parse_value (Suc k) s = parse_value k s"
    using parse_fuel [of s k] by simp
  then show ?case using step by simp
qed

lemma JSON_parse_fuel:
  assumes "2 * length s + 2 \<le> m"
  shows "JSON_parse s =
           (case parse_value m s of
              None \<Rightarrow> None
            | Some (v, rest) \<Rightarrow> if skip_ws rest = [] then Some v else None)"
  using parse_value_fuel [of s "2 * length s + 2" m] assms
  by (simp add: JSON_parse_def)

section \<open>Properties of the record store\<close>






lemma loadData_saved:
  assumes "wf_json v" and "write_error d name = None"
  shows "loadData (snd (saveData d name v)) name' = (if name' = name then v else loadData d name')"
  using assms
  by (simp add: saveData_def writeFile_def loadData_def loadData_try_def readFile_def
        JSON_parse_stringify)



text \<open>
  C10.  Whatever the state of \<^verbatim>\<open>projects.json\<close>, the handler answers 200 with an array:
  the stored array when the file parses to one, the empty array when the file cannot be
  read, cannot be parsed or parses to something else.  The \<^verbatim>\<open>try\<close> block never throws, so
  the 500 answer of the \<^verbatim>\<open>catch\<close> is never sent.
\<close>

theorem get_projects_always_array:
  "get_projects d =
     Response 200
       (case files d ''projects.json'' of
          Inl error \<Rightarrow> JArr []
        | Inr data \<Rightarrow>
            (case JSON_parse data of
               None \<Rightarrow> JArr []
             | Some v \<Rightarrow> (case v of JArr projects \<Rightarrow> JArr projects | _ \<Rightarrow> JArr [])))
   \<and> status (get_projects d) = 200
   \<and> isArray (body (get_projects d))
   \<and> get_projects d \<noteq> Response 500 (error_body ''Failed to load projects'')
   \<and> (\<forall>error. get_projects_try d \<noteq> Inl error)"
  by (auto simp: get_projects_def get_projects_try_def loadData_def loadData_try_def
        readFile_def split: sum.splits option.splits json.splits)

section \<open>Deleting an identifier that is not there\<close>









text \<open>
  The route \<^verbatim>\<open>DELETE /api/technologies/:id\<close> reads the skills file as a bare array: on the
  wrapper it throws, answers 500 and writes nothing.
\<close>

lemma delete_technology_on_wrapper:
  assumes "loadData d ''skills.json'' = JObj kvs"
  shows "delete_technology ident d = (Response 500 (error_body ''Failed to delete technology''), d)"
  using assms by (simp add: delete_technology_def or_else_def catch_500_def)

section \<open>Properties of the archival job\<close>










section \<open>The shape of the resource files\<close>

text \<open>
  The top-level shape of a loaded value: a bare array, the wrapper whose \<^verbatim>\<open>skills\<close>
  property is an array, or anything else; and the shape each resource keeps its file in.
  A request is well formed when its JSON body is a JavaScript value (no object has a
  property twice).
\<close>

datatype shape = BareArray | SkillsWrapper | OtherShape

fun top_shape :: "json \<Rightarrow> shape" where
  "top_shape (JArr vs) = BareArray"
| "top_shape (JObj kvs) =
     (case map_of kvs ''skills'' of Some (JArr ss) \<Rightarrow> SkillsWrapper | _ \<Rightarrow> OtherShape)"
| "top_shape _ = OtherShape"



definition keeps_shape :: "resource \<Rightarrow> disk \<Rightarrow> disk \<Rightarrow> bool" where
  "keeps_shape r d d' =
     (top_shape (loadData d' (resource_file r)) = top_shape (loadData d (resource_file r)))"



lemma keeps_shape_refl [simp]: "keeps_shape r d d"
  by (simp add: keeps_shape_def)

lemma catch_500_keeps [simp]: "keeps_shape r d (snd (catch_500 m x)) = keeps_shape r d (snd x)"
  by (simp add: catch_500_def split: sum.splits)









lemma wf_obj_put:
  "wf_json (JObj kvs) \<Longrightarrow> wf_json v \<Longrightarrow> wf_json (JObj (obj_put kvs k v))"
  by (simp add: obj_put_distinct obj_put_all)

lemma wf_obj_assign:
  "wf_json (JObj acc) \<Longrightarrow> list_all (\<lambda>(k, v). wf_json v) kvs \<Longrightarrow>
     wf_json (JObj (obj_assign acc kvs))"
  using foldl_obj_put_wf [of acc wf_json kvs] by (simp add: obj_assign_def)




lemma resource_file_skills [simp]: "(resource_file r = ''skills.json'') = (r = Skills)"
  by (cases r) simp_all






lemma wf_comma_list [simp]: "wf_json (comma_list s)" "wf_json (comma_list_all s)"
  by (simp_all add: comma_list_def comma_list_all_def list_all_iff)

lemma wf_list_field [simp]: "wf_json (list_field x)"
  by (auto simp: list_field_def split: option.splits dest: JSON_parse_wf)

lemma wf_year_field [simp]: "wf_json (year_field x)"
  by (simp add: year_field_def split: option.splits)

lemma wf_new_id [simp]: "wf_json (new_id rt)"
  by (simp add: new_id_def)

lemma wf_newProject [simp]: "wf_json (newProject rt f)"
  by (cases "project_title f"; cases "project_description f")
     (simp_all add: newProject_def split: option.splits)


lemma wf_spread_object: "wf_json (JObj kvs) \<Longrightarrow> wf_json (JObj (spread (JObj kvs)))"
  by simp


lemma wf_obj_put_opt: "wf_json (JObj kvs) \<Longrightarrow> wf_json (JObj (obj_put_opt kvs k x))"
proof (cases x)
  case None
  assume "wf_json (JObj kvs)"
  then show ?thesis
    using None by (auto simp: distinct_map_filter list_all_iff)
next
  case (Some s)
  assume "wf_json (JObj kvs)"
  then show ?thesis
    using Some wf_obj_put [of kvs "JStr s" k] by simp
qed

lemma wf_education_fields:
  assumes "wf_json (JObj kvs)"
  shows "wf_json (JObj (education_fields f kvs))"
  unfolding education_fields_def
  by (rule wf_obj_assign, (rule wf_obj_put_opt)+, rule wf_obj_put) (use assms in simp_all)

lemma wf_newEntry [simp]: "wf_json (newEntry rt f)"
  unfolding newEntry_def
  by (rule wf_obj_assign, rule wf_education_fields) (simp_all split: option.splits)


































section \<open>Properties of the password-reset flow\<close>

















section \<open>Properties of the reset request\<close>

text \<open>Two addresses are the same up to the case of their letters.\<close>

definition ci_equal :: "string \<Rightarrow> string \<Rightarrow> bool" where
  "ci_equal a b = (map upper a = map upper b)"

lemma request_password_reset_unknown:
  assumes "address \<noteq> []" and "email_regex e address = Some matches"
    and "\<forall>u \<in> set db. \<not> matches (email u)"
  shows "request_password_reset e now (Some address) db =
           (Response 404 (error_body ''No account found with this email address.''), db, None)"
proof -
  have "find (\<lambda>u. matches (email u)) db = None"
    using assms(3) by (simp add: find_None_iff)
  then show ?thesis
    using assms(1,2) by (simp add: request_password_reset_def User_findOne_def)
qed

lemma request_password_reset_known:
  assumes "address \<noteq> []" and "email_regex e address = Some matches"
    and "find (\<lambda>u. matches (email u)) db = Some u"
    and "jwt_sign e [(''userId'', user_id u), (''email'', email u)] JWT_SECRET 3600 = Inr T"
  shows "\<exists>r. request_password_reset e now (Some address) db =
           (r, User_save (u\<lparr>resetToken := Some (bcrypt_hash e T 10),
                            resetTokenExpires := Some (now + 3600000)\<rparr>) db,
            Some (mailOptions e address
                    (u\<lparr>resetToken := Some (bcrypt_hash e T 10),
                       resetTokenExpires := Some (now + 3600000)\<rparr>) T))"
  using assms by (simp add: request_password_reset_def User_findOne_def Let_def)

lemma shortResetUrl_prefix_only:
  "shortResetUrl e (T @ rest) = shortResetUrl e (T @ rest')" if "64 \<le> length T"
  using that by (simp add: shortResetUrl_def)

text \<open>
  C4 fails on the code.  The submitted address is used as a regular expression, so its
  dots are wildcards: a request for \<^verbatim>\<open>admin@e.ample.com\<close>, which is no account's address
  in any letter case, finds the account of \<^verbatim>\<open>admin@example.com\<close>, stores a hashed token
  and an expiry on it, answers 200 and addresses the reset link to the submitted address.
\<close>

theorem request_password_reset_wildcard:
  "\<not> ci_equal ''admin@e.ample.com'' (email admin0)
   \<and> request_password_reset env0 1000 (Some ''admin@e.ample.com'') [admin0] =
       (Response 200 (message_body
          ''If your email is registered, you will receive a password reset link shortly.''),
        [admin0\<lparr>resetToken :=
                  Some (''$2b$65f0admin@example.com.'' @ replicate 64 (CHR ''s'')),
                resetTokenExpires := Some 3601000\<rparr>],
        Some \<lparr>mail_from = ''\"Portfolio Dashboard\" <noreply@portfolio-dashboard.com>'',
              mail_to = ''admin@e.ample.com'',
              mail_subject = defaultSubject,
              mail_customMessage = defaultCustomMessage,
              mail_href = ''http://localhost:3001/reset-password.html?t=65f0admin%40example.com.''
                            @ replicate 42 (CHR ''s''),
              mail_year = 2025\<rparr>)"
  by (simp add: ci_equal_def upper_def admin0_def env0_def request_password_reset_def
        email_regex_def printable_def metachar_def User_findOne_def JWT_SECRET_def
        User_save_def mailOptions_def shortResetUrl_def encodeURIComponent_def
        unreserved_def hex_digit_def Let_def)

section \<open>Properties of login\<close>




end
